theory Spec2Isabelle
  imports
    Complex_Main
    "HOL-Library.Signed_Division"
    "HOL-Library.Multiset"
    "HOL-Library.Sublist"
begin

section \<open>Label construction of \<open>qd_detr/start_end_dataset.py\<close>\<close>

text \<open>
  The development embeds the label-building methods of \<open>StartEndDataset\<close>
  (\<open>get_span_labels\<close>, the three \<open>get_saliency_labels_*\<close> builders, the moment-class
  stage of \<open>__getitem__\<close>, the precondition checks of \<open>__init__\<close>) and
  \<open>start_end_collate\<close>.

  Conventions of the embedding:
  \<^item> Python integers are \<open>int\<close>; seconds, clip ids, annotator scores and \<open>clip_len\<close> are
    integers, as in the record shown in the class docstring. Float rounding is not
    modelled: the entries of a float array are exact rationals.
  \<^item> An exception is a value \<open>Inl e\<close> of \<open>error + 'a\<close>; a failed \<open>assert\<close> is
    \<open>AssertionError n\<close> with \<open>n\<close> the source line of the assertion.
  \<^item> The process-wide generator of module \<open>random\<close> is an explicit stream of draws,
    threaded through every call that consumes randomness and returned advanced.
  \<^item> An in-place mutation of an argument is returned as the argument's new value.
\<close>

subsection \<open>Errors and the random source\<close>

datatype error =
    ValueError
  | IndexError
  | AxisError
  | ZeroDivisionError
  | NotImplementedError
  | NameError
  | UnboundLocalError
  | KeyError
  | AssertionError nat

type_synonym rng = "nat \<Rightarrow> nat"

text \<open>\<open>_randbelow(n)\<close>: the next draw, reduced to \<open>[0, n)\<close>; the stream moves on by one.\<close>

definition randbelow :: "nat \<Rightarrow> rng \<Rightarrow> nat \<times> rng" where
  "randbelow n g = (g 0 mod n, \<lambda>i. g (Suc i))"

text \<open>
  \<open>random.sample(population, k)\<close>, by the pool-based selection of CPython: at step \<open>i\<close>
  a position \<open>j\<close> below the number of remaining candidates is drawn, \<open>pool[j]\<close> is
  selected, and the last remaining candidate is moved into slot \<open>j\<close>. The result holds
  \<open>k\<close> elements taken at different positions of the population; for a large population
  CPython draws positions until it meets a new one, which gives results of the same
  kind. \<open>k\<close> larger than the population raises \<open>ValueError\<close>.
\<close>

fun sample_pool :: "'a list \<Rightarrow> nat \<Rightarrow> rng \<Rightarrow> 'a list \<times> rng" where
  "sample_pool pool 0 g = ([], g)"
| "sample_pool pool (Suc k) g =
     (case randbelow (length pool) g of (j, g1) \<Rightarrow>
        (case sample_pool (butlast (pool[j := last pool])) k g1 of (xs, g2) \<Rightarrow>
           (pool ! j # xs, g2)))"

definition random_sample :: "'a list \<Rightarrow> nat \<Rightarrow> rng \<Rightarrow> error + ('a list \<times> rng)" where
  "random_sample population k g =
     (if length population < k then Inl ValueError
      else Inr (sample_pool population k g))"

text \<open>
  \<open>random.shuffle(x)\<close>: for \<open>i\<close> from \<open>len(x) - 1\<close> down to \<open>1\<close>, draw \<open>j\<close> below
  \<open>i + 1\<close> and exchange \<open>x[i]\<close> and \<open>x[j]\<close>. The list is changed in place; the model
  returns its new contents.
\<close>

definition swap_items :: "nat \<Rightarrow> nat \<Rightarrow> 'a list \<Rightarrow> 'a list" where
  "swap_items i j xs = xs[i := xs ! j, j := xs ! i]"

fun shuffle_steps :: "nat \<Rightarrow> 'a list \<Rightarrow> rng \<Rightarrow> 'a list \<times> rng" where
  "shuffle_steps 0 xs g = (xs, g)"
| "shuffle_steps (Suc i) xs g =
     (case randbelow (Suc (Suc i)) g of (j, g1) \<Rightarrow>
        shuffle_steps i (swap_items (Suc i) j xs) g1)"

definition random_shuffle :: "'a list \<Rightarrow> rng \<Rightarrow> 'a list \<times> rng" where
  "random_shuffle xs g = shuffle_steps (length xs - 1) xs g"

text \<open>The constant stream, for concrete runs.\<close>

definition const_rng :: "nat \<Rightarrow> rng" where
  "const_rng d = (\<lambda>i. d)"

subsection \<open>Python and numpy primitives\<close>

text \<open>\<open>int(a / b)\<close>: true division, then truncation toward zero; \<open>b = 0\<close> raises.\<close>

definition int_truediv :: "int \<Rightarrow> int \<Rightarrow> error + int" where
  "int_truediv a b = (if b = 0 then Inl ZeroDivisionError else Inr (a sdiv b))"

text \<open>\<open>list(range(a, b))\<close>.\<close>

definition py_range :: "int \<Rightarrow> int \<Rightarrow> int list" where
  "py_range a b = [a..b - 1]"

text \<open>\<open>np.zeros(n)\<close>: a negative dimension raises \<open>ValueError\<close>.\<close>

definition np_zeros :: "int \<Rightarrow> error + rat list" where
  "np_zeros n = (if n < 0 then Inl ValueError else Inr (replicate (nat n) 0))"

text \<open>
  A slice bound on a sequence of length \<open>n\<close>: a negative bound counts from the end, and
  the result is clipped to \<open>[0, n]\<close>.
\<close>

definition slice_bound :: "nat \<Rightarrow> int \<Rightarrow> nat" where
  "slice_bound n i = (if i < 0 then nat (max 0 (int n + i)) else min n (nat i))"

text \<open>\<open>arr[a:b] = v\<close> for a scalar \<open>v\<close>.\<close>

definition slice_fill :: "'a list \<Rightarrow> int \<Rightarrow> int \<Rightarrow> 'a \<Rightarrow> 'a list" where
  "slice_fill arr a b v =
     (let lo = slice_bound (length arr) a; hi = slice_bound (length arr) b
      in take lo arr @ replicate (hi - lo) v @ drop (max lo hi) arr)"

text \<open>
  An index into a sequence of \<open>len\<close> items: \<open>i\<close> in \<open>[0, len)\<close> is the position itself,
  \<open>i\<close> in \<open>[-len, 0)\<close> counts from the end, anything else is out of range.
\<close>

definition norm_index :: "nat \<Rightarrow> int \<Rightarrow> nat option" where
  "norm_index len i =
     (if 0 \<le> i \<and> i < int len then Some (nat i)
      else if - int len \<le> i \<and> i < 0 then Some (nat (int len + i))
      else None)"

text \<open>\<open>arr[i] = v\<close> on a one-dimensional array; out of range raises \<open>IndexError\<close>.\<close>

definition np_set_item :: "'a list \<Rightarrow> int \<Rightarrow> 'a \<Rightarrow> error + 'a list" where
  "np_set_item arr i v =
     (case norm_index (length arr) i of
        None \<Rightarrow> Inl IndexError
      | Some j \<Rightarrow> Inr (arr[j := v]))"

text \<open>\<open>xs[i]\<close> on a list.\<close>

definition py_get :: "'a list \<Rightarrow> int \<Rightarrow> error + 'a" where
  "py_get xs i =
     (case norm_index (length xs) i of
        None \<Rightarrow> Inl IndexError
      | Some j \<Rightarrow> Inr (xs ! j))"

subsection \<open>\<open>get_saliency_labels_sub_as_query\<close>\<close>

text \<open>
  Lines 188 to 191: the clip range of the ground-truth window.
  \<^verbatim>\<open>
  gt_st = int(gt_window[0] / self.clip_len)
  gt_ed = max(0, min(int(gt_window[1] / self.clip_len), ctx_l) - 1)
  if gt_st > gt_ed:
      gt_st = gt_ed
  \<close>
\<close>

definition gt_bounds :: "int \<Rightarrow> int \<times> int \<Rightarrow> int \<Rightarrow> error + (int \<times> int)" where
  "gt_bounds clip_len gt_window ctx_l =
     (case int_truediv (fst gt_window) clip_len of
        Inl e \<Rightarrow> Inl e
      | Inr gt_st \<Rightarrow>
          (case int_truediv (snd gt_window) clip_len of
             Inl e \<Rightarrow> Inl e
           | Inr q \<Rightarrow>
               (let gt_ed = max 0 (min q ctx_l - 1)
                in Inr (if gt_st > gt_ed then gt_ed else gt_st, gt_ed))))"

text \<open>
  Lines 193 to 205. The result is the returned triple (positive indices, negative
  indices, dense score array), paired with the advanced random source.
\<close>

definition get_saliency_labels_sub_as_query ::
  "int \<Rightarrow> int \<times> int \<Rightarrow> int \<Rightarrow> nat \<Rightarrow> rng \<Rightarrow>
     error + ((int list \<times> int list \<times> rat list) \<times> rng)" where
  "get_saliency_labels_sub_as_query clip_len gt_window ctx_l max_n g =
     (case gt_bounds clip_len gt_window ctx_l of
        Inl e \<Rightarrow> Inl e
      | Inr (gt_st, gt_ed) \<Rightarrow>
          (case (if gt_st \<noteq> gt_ed
                 then random_sample (py_range gt_st (gt_ed + 1)) max_n g
                 else Inr ([gt_st, gt_st], g)) of
             Inl e \<Rightarrow> Inl e
           | Inr (pos_clip_indices, g1) \<Rightarrow>
               (case random_sample (py_range 0 gt_st @ py_range (gt_ed + 1) ctx_l) max_n g1 of
                  Inl e \<Rightarrow> Inl e
                | Inr (neg_clip_indices, g2) \<Rightarrow>
                    (case np_zeros ctx_l of
                       Inl e \<Rightarrow> Inl e
                     | Inr score_array \<Rightarrow>
                         Inr ((pos_clip_indices, neg_clip_indices,
                               slice_fill score_array gt_st (gt_ed + 1) 1), g2)))))"

subsection \<open>\<open>get_saliency_labels_all\<close>\<close>

text \<open>
  \<open>np.sum(np.array(scores), 1)\<close>: one aggregate per row. An empty \<open>scores\<close> has no
  axis 1 (\<open>AxisError\<close>); rows of different lengths do not form an array.
\<close>

definition np_sum_axis1 :: "int list list \<Rightarrow> error + int list" where
  "np_sum_axis1 scores =
     (if scores = [] then Inl AxisError
      else if \<not> list_all (\<lambda>r. length r = length (hd scores)) scores then Inl ValueError
      else Inr (map sum_list scores))"

text \<open>
  \<open>np.argsort\<close>: the positions in increasing order of their keys. Equal keys keep
  their order, as numpy's default sort does on arrays of at most 16 entries; on longer
  arrays the order of equal keys is an implementation detail.
\<close>

definition argsort :: "int list \<Rightarrow> nat list" where
  "argsort xs = sort_key (\<lambda>i. xs ! i) [0..<length xs]"

text \<open>\<open>xs[-n:]\<close> for \<open>n \<ge> 0\<close>; \<open>xs[-0:]\<close> is the whole list.\<close>

definition last_n :: "nat \<Rightarrow> 'a list \<Rightarrow> 'a list" where
  "last_n n xs = (if n = 0 then xs else drop (length xs - n) xs)"

text \<open>
  \<open>dst[:n] = src\<close> on one-dimensional arrays: the lengths must agree, or \<open>src\<close> has one
  entry, which is then broadcast.
\<close>

definition slice_assign_prefix :: "'a list \<Rightarrow> int \<Rightarrow> 'a list \<Rightarrow> error + 'a list" where
  "slice_assign_prefix dst n src =
     (let hi = slice_bound (length dst) n
      in if length src = hi then Inr (src @ drop hi dst)
         else if length src = 1 then Inr (replicate hi (hd src) @ drop hi dst)
         else Inl ValueError)"

text \<open>
  Lines 260 to 267, the loop that fills the dense array; \<open>grow_score_array\<close> is the
  body of its conditional:
  \<^verbatim>\<open>
  for idx in range(len(rel_clip_ids)):
      if rel_clip_ids[idx] >= ctx_l:
          score_array_new = np.zeros(ctx_l + 1)
          score_array_new[:ctx_l] = score_array
          score_array = score_array_new
      score_array[rel_clip_ids[idx]] = agg_scores[idx]
  \<close>
\<close>

definition grow_score_array :: "int \<Rightarrow> rat list \<Rightarrow> error + rat list" where
  "grow_score_array ctx_l score_array =
     (case np_zeros (ctx_l + 1) of
        Inl e \<Rightarrow> Inl e
      | Inr score_array_new \<Rightarrow> slice_assign_prefix score_array_new ctx_l score_array)"

fun score_loop ::
  "int list \<Rightarrow> int list \<Rightarrow> int \<Rightarrow> nat list \<Rightarrow> rat list \<Rightarrow> error + rat list" where
  "score_loop rel_clip_ids agg_scores ctx_l [] score_array = Inr score_array"
| "score_loop rel_clip_ids agg_scores ctx_l (idx # rest) score_array =
     (case py_get rel_clip_ids (int idx) of
        Inl e \<Rightarrow> Inl e
      | Inr cid \<Rightarrow>
          (case (if cid \<ge> ctx_l then grow_score_array ctx_l score_array
                 else Inr score_array) of
             Inl e \<Rightarrow> Inl e
           | Inr arr1 \<Rightarrow>
               (case py_get agg_scores (int idx) of
                  Inl e \<Rightarrow> Inl e
                | Inr a \<Rightarrow>
                    (case np_set_item arr1 cid (of_int a) of
                       Inl e \<Rightarrow> Inl e
                     | Inr arr2 \<Rightarrow> score_loop rel_clip_ids agg_scores ctx_l rest arr2))))"

text \<open>\<open>[min(rel_clip_ids[idx], ctx_l-1) for idx in idxs]\<close>.\<close>

fun clamp_ids :: "int list \<Rightarrow> int \<Rightarrow> nat list \<Rightarrow> error + int list" where
  "clamp_ids rel_clip_ids ctx_l [] = Inr []"
| "clamp_ids rel_clip_ids ctx_l (idx # rest) =
     (case py_get rel_clip_ids (int idx) of
        Inl e \<Rightarrow> Inl e
      | Inr cid \<Rightarrow>
          (case clamp_ids rel_clip_ids ctx_l rest of
             Inl e \<Rightarrow> Inl e
           | Inr cs \<Rightarrow> Inr (min cid (ctx_l - 1) # cs)))"

text \<open>
  \<open>list(set(range(ctx_l)) - set(rel_clip_ids))\<close>. The order in which a Python set is
  listed is an implementation detail; the model lists the pool in increasing order.
\<close>

definition easy_neg_pool :: "int \<Rightarrow> int list \<Rightarrow> int list" where
  "easy_neg_pool ctx_l rel_clip_ids = filter (\<lambda>i. i \<notin> set rel_clip_ids) (py_range 0 ctx_l)"

text \<open>
  Lines 274 to 283: the easy indices. They are sampled when the pool of clips outside
  \<open>rel_clip_ids\<close> holds at least \<open>max_n\<close> clips, and are the hard indices otherwise.
\<close>

definition easy_clip_indices ::
  "bool \<Rightarrow> int \<Rightarrow> int list \<Rightarrow> nat \<Rightarrow> int list \<Rightarrow> int list \<Rightarrow> rng \<Rightarrow>
     error + ((int list \<times> int list) \<times> rng)" where
  "easy_clip_indices add_easy_negative ctx_l rel_clip_ids max_n
       hard_pos_clip_indices hard_neg_clip_indices g =
     (if add_easy_negative
      then (let pool = easy_neg_pool ctx_l rel_clip_ids in
            if length pool \<ge> max_n
            then (case random_sample rel_clip_ids max_n g of
                    Inl e \<Rightarrow> Inl e
                  | Inr (easy_pos, g1) \<Rightarrow>
                      (case random_sample pool max_n g1 of
                         Inl e \<Rightarrow> Inl e
                       | Inr (easy_neg, g2) \<Rightarrow> Inr ((easy_pos, easy_neg), g2)))
            else Inr ((hard_pos_clip_indices, hard_neg_clip_indices), g))
      else Inr (([], []), g))"

text \<open>
  The whole method. The result is the returned triple (positive indices, negative
  indices, dense score array), paired with the advanced random source.
\<close>

definition get_saliency_labels_all ::
  "int list \<Rightarrow> int list list \<Rightarrow> int \<Rightarrow> nat \<Rightarrow> bool \<Rightarrow> rng \<Rightarrow>
     error + ((int list \<times> int list \<times> rat list) \<times> rng)" where
  "get_saliency_labels_all rel_clip_ids scores ctx_l max_n add_easy_negative g =
     (case np_sum_axis1 scores of
        Inl e \<Rightarrow> Inl e
      | Inr agg_scores \<Rightarrow>
     (let sort_indices = argsort agg_scores in
      case np_zeros ctx_l of
        Inl e \<Rightarrow> Inl e
      | Inr zeros \<Rightarrow>
     (case score_loop rel_clip_ids agg_scores ctx_l [0..<length rel_clip_ids] zeros of
        Inl e \<Rightarrow> Inl e
      | Inr score_array \<Rightarrow>
     (case clamp_ids rel_clip_ids ctx_l (last_n max_n sort_indices) of
        Inl e \<Rightarrow> Inl e
      | Inr hard_pos_clip_indices \<Rightarrow>
     (case clamp_ids rel_clip_ids ctx_l (take max_n sort_indices) of
        Inl e \<Rightarrow> Inl e
      | Inr hard_neg_clip_indices \<Rightarrow>
     (case easy_clip_indices add_easy_negative ctx_l rel_clip_ids max_n
             hard_pos_clip_indices hard_neg_clip_indices g of
        Inl e \<Rightarrow> Inl e
      | Inr ((easy_pos_clip_indices, easy_neg_clip_indices), g') \<Rightarrow>
          Inr ((hard_pos_clip_indices @ easy_pos_clip_indices,
                hard_neg_clip_indices @ easy_neg_clip_indices,
                score_array), g')))))))"

subsection \<open>\<open>get_saliency_labels_all_tvsum\<close>\<close>

text \<open>
  \<open>np.sum(labels - np.ones_like(labels), axis=-1)[:ctx_l]\<close> on a two-dimensional
  \<open>labels\<close> (one row of annotator marks per clip). An empty \<open>labels\<close> sums to a scalar,
  which cannot be sliced.
\<close>

definition tvsum_agg_scores :: "int list list \<Rightarrow> int \<Rightarrow> error + int list" where
  "tvsum_agg_scores labels ctx_l =
     (if labels = [] then Inl IndexError
      else if \<not> list_all (\<lambda>r. length r = length (hd labels)) labels then Inl ValueError
      else Inr (take (slice_bound (length labels) ctx_l)
                  (map (\<lambda>r. sum_list (map (\<lambda>x. x - 1) r)) labels)))"

text \<open>
  In the branch taken when \<open>add_easy_negative\<close> holds and the pool is large enough, the
  source reads \<open>rel_clip_ids\<close>, a name this method does not bind.
\<close>

definition get_saliency_labels_all_tvsum ::
  "int list list \<Rightarrow> int \<Rightarrow> nat \<Rightarrow> bool \<Rightarrow> rng \<Rightarrow>
     error + ((int list \<times> int list \<times> rat list) \<times> rng)" where
  "get_saliency_labels_all_tvsum labels ctx_l max_n add_easy_negative g =
     (case tvsum_agg_scores labels ctx_l of
        Inl e \<Rightarrow> Inl e
      | Inr agg_scores \<Rightarrow>
     (let score_array = map (\<lambda>a. of_int a / 80 * 12) agg_scores;
          sort_indices = argsort agg_scores;
          hard_pos_clip_indices = map (\<lambda>idx. min (int idx) (ctx_l - 1)) (last_n max_n sort_indices);
          hard_neg_clip_indices = map (\<lambda>idx. min (int idx) (ctx_l - 1)) (take max_n sort_indices)
      in case (if add_easy_negative
               then (if length (py_range 0 ctx_l) \<ge> max_n
                     then Inl NameError
                     else Inr (hard_pos_clip_indices, hard_neg_clip_indices))
               else Inr ([], [])) of
           Inl e \<Rightarrow> Inl e
         | Inr (easy_pos_clip_indices, easy_neg_clip_indices) \<Rightarrow>
             Inr ((hard_pos_clip_indices @ easy_pos_clip_indices,
                   hard_neg_clip_indices @ easy_neg_clip_indices,
                   score_array), g)))"

subsection \<open>\<open>get_span_labels\<close>\<close>

text \<open>
  A float of a tensor is a rational, or a non-finite value (\<open>inf\<close>, \<open>nan\<close>): torch
  divides by zero without raising.
\<close>

datatype flt = Fin rat | NonFinite

definition flt_div :: "int \<Rightarrow> int \<Rightarrow> flt" where
  "flt_div x d = (if d = 0 then NonFinite else Fin (of_int x / of_int d))"

text \<open>
  Modelled from the spec: \<open>span_xx_to_cxw\<close> of \<open>qd_detr/span_utils.py\<close>, which is not
  among the sources. The spec has it convert normalized \<open>[start, end]\<close> pairs to
  \<open>[center, width]\<close>.
\<close>

fun xx_to_cxw :: "flt \<times> flt \<Rightarrow> flt \<times> flt" where
  "xx_to_cxw (Fin st, Fin ed) = (Fin ((st + ed) / 2), Fin (ed - st))"
| "xx_to_cxw (Fin st, NonFinite) = (NonFinite, NonFinite)"
| "xx_to_cxw (NonFinite, ed) = (NonFinite, NonFinite)"

definition span_xx_to_cxw :: "(flt \<times> flt) list \<Rightarrow> (flt \<times> flt) list" where
  "span_xx_to_cxw xx_spans = map xx_to_cxw xx_spans"

text \<open>The returned tensor: float rows in the \<open>l1\<close> regime, integer rows in \<open>ce\<close>.\<close>

datatype span_tensor = FloatSpans "(flt \<times> flt) list" | LongSpans "(int \<times> int) list"

text \<open>
  One row of the \<open>ce\<close> regime, line 332:
  \<open>[int(w[0] / self.clip_len), min(int(w[1] / self.clip_len), ctx_l) - 1]\<close>.
\<close>

definition ce_span :: "int \<Rightarrow> int \<Rightarrow> int \<times> int \<Rightarrow> error + (int \<times> int)" where
  "ce_span clip_len ctx_l w =
     (case int_truediv (fst w) clip_len of
        Inl e \<Rightarrow> Inl e
      | Inr st \<Rightarrow>
          (case int_truediv (snd w) clip_len of
             Inl e \<Rightarrow> Inl e
           | Inr q \<Rightarrow> Inr (st, min q ctx_l - 1)))"

fun ce_spans :: "int \<Rightarrow> int \<Rightarrow> (int \<times> int) list \<Rightarrow> error + (int \<times> int) list" where
  "ce_spans clip_len ctx_l [] = Inr []"
| "ce_spans clip_len ctx_l (w # ws) =
     (case ce_span clip_len ctx_l w of
        Inl e \<Rightarrow> Inl e
      | Inr row \<Rightarrow>
          (case ce_spans clip_len ctx_l ws of
             Inl e \<Rightarrow> Inl e
           | Inr rows \<Rightarrow> Inr (row # rows)))"

text \<open>
  Lines 319 to 321. \<open>random.shuffle(windows)\<close> permutes the list object the caller
  passed; the slice that follows rebinds the local name only. The first component is
  the caller's list after these lines, the second the windows the method goes on with.
\<close>

definition subsample_windows ::
  "nat \<Rightarrow> (int \<times> int) list \<Rightarrow> rng \<Rightarrow> ((int \<times> int) list \<times> (int \<times> int) list) \<times> rng" where
  "subsample_windows max_windows windows g =
     (if length windows > max_windows
      then (case random_shuffle windows g of
              (shuffled, g1) \<Rightarrow> ((shuffled, take max_windows shuffled), g1))
      else ((windows, windows), g))"

text \<open>
  The whole method. The result is the returned pair (spans, lengths), paired with the
  state it leaves behind: the caller's window list and the random source.
\<close>

definition get_span_labels ::
  "int \<Rightarrow> nat \<Rightarrow> string \<Rightarrow> (int \<times> int) list \<Rightarrow> int \<Rightarrow> rng \<Rightarrow>
     error + ((span_tensor \<times> int list) \<times> ((int \<times> int) list \<times> rng))" where
  "get_span_labels clip_len max_windows span_loss_type windows ctx_l g =
     (case subsample_windows max_windows windows g of
        ((callers_windows, kept), g1) \<Rightarrow>
          (let lengths = map (\<lambda>w. snd w - fst w) kept in
           if span_loss_type = ''l1''
           then Inr ((FloatSpans (span_xx_to_cxw
                        (map (\<lambda>w. (flt_div (fst w) (ctx_l * clip_len),
                                    flt_div (snd w) (ctx_l * clip_len))) kept)),
                      lengths), (callers_windows, g1))
           else if span_loss_type = ''ce''
           then (case ce_spans clip_len ctx_l kept of
                   Inl e \<Rightarrow> Inl e
                 | Inr rows \<Rightarrow> Inr ((LongSpans rows, lengths), (callers_windows, g1)))
           else Inl NotImplementedError))"

subsection \<open>\<open>__init__\<close> and \<open>__getitem__\<close>\<close>

text \<open>Python's \<open>sub in s\<close> on strings.\<close>

fun str_in :: "string \<Rightarrow> string \<Rightarrow> bool" where
  "str_in sub [] = (sub = [])"
| "str_in sub (c # cs) = (prefix sub (c # cs) \<or> str_in sub cs)"

definition Q_FEAT_TYPES :: "string list" where
  "Q_FEAT_TYPES = [''pooler_output'', ''last_hidden_state'']"

text \<open>
  Lines 59 to 63 of \<open>__init__\<close>, the checks that run before \<open>load_data\<close> reads the
  annotation file (line 66):
  \<^verbatim>\<open>
  if "val" in data_path or "test" in data_path:
      assert txt_drop_ratio == 0
  assert q_feat_type in self.Q_FEAT_TYPES
  \<close>
  \<open>Inr ()\<close> means that control reaches line 66.
\<close>

definition init_checks :: "string \<Rightarrow> rat \<Rightarrow> string \<Rightarrow> error + unit" where
  "init_checks data_path txt_drop_ratio q_feat_type =
     (if (str_in ''val'' data_path \<or> str_in ''test'' data_path) \<and> txt_drop_ratio \<noteq> 0
      then Inl (AssertionError 60)
      else if q_feat_type \<notin> set Q_FEAT_TYPES then Inl (AssertionError 63)
      else Inr ())"

text \<open>The fields of a dataset object and of an annotation record that the labels use.\<close>

record config =
  dset_name :: string
  data_path :: string
  load_labels :: bool
  clip_len :: int
  max_windows :: nat
  span_loss_type :: string
  m_vals :: "int list option"

record meta =
  relevant_windows :: "(int \<times> int) list"
  relevant_clip_ids :: "int list"
  saliency_scores :: "int list list"
  label :: "int list list"

text \<open>
  \<open>model_inputs\<close>: a dictionary with these keys, in this order of insertion; \<open>None\<close> is
  an absent key. The two features are loaded by lines 112 to 157 and are arrays of rows.
\<close>

record model_inputs =
  query_feat :: "rat list list option"
  video_feat :: "rat list list option"
  span_labels :: "span_tensor option"
  saliency_pos_labels :: "int list option"
  saliency_neg_labels :: "int list option"
  saliency_all_labels :: "rat list option"
  moment_class :: "nat list option"

text \<open>
  Lines 176 to 180: the threshold scan for one length, and the loop over the lengths.
  \<^verbatim>\<open>
  for l in lengths:
      for m_cls, m_val in enumerate(self.m_vals):
          if l <= m_val:
              moment_class.append(m_cls)
              break
  \<close>
  \<open>scan_m_vals\<close> returns what the inner loop appends: one class, or nothing.
\<close>

fun scan_m_vals :: "nat \<Rightarrow> int list \<Rightarrow> int \<Rightarrow> nat list" where
  "scan_m_vals m_cls [] l = []"
| "scan_m_vals m_cls (m_val # rest) l =
     (if l \<le> m_val then [m_cls] else scan_m_vals (Suc m_cls) rest l)"

fun moment_class_loop :: "int list \<Rightarrow> int list \<Rightarrow> nat list" where
  "moment_class_loop ms [] = []"
| "moment_class_loop ms (l # ls) = scan_m_vals 0 ms l @ moment_class_loop ms ls"

text \<open>
  Lines 174 to 183. \<open>lengths\<close> is bound only on the path through \<open>get_span_labels\<close>;
  \<open>None\<close> is the unbound name. The result is the new value of the key
  \<open>moment_class\<close>.
\<close>

definition moment_class_stage :: "int list option \<Rightarrow> int list option \<Rightarrow> error + nat list option" where
  "moment_class_stage mvals lengths =
     (case mvals of
        None \<Rightarrow> Inr None
      | Some ms \<Rightarrow>
          (case lengths of
             None \<Rightarrow> Inl UnboundLocalError
           | Some ls \<Rightarrow>
               (let mc = moment_class_loop ms ls
                in if length mc = length ls then Inr (Some mc)
                   else Inl (AssertionError 183))))"

text \<open>
  Lines 159 to 185 of \<open>__getitem__\<close>: the labels are added to \<open>model_inputs\<close>, which
  holds the features already, for the record \<open>meta\<close> and the context length \<open>ctx_l\<close>.
  The result is the returned pair of \<open>meta\<close> and \<open>model_inputs\<close>; \<open>meta\<close> is the record
  of \<open>self.data\<close> itself, so what the call does to it stays in the data list.
\<close>

definition getitem_labels ::
  "config \<Rightarrow> meta \<Rightarrow> model_inputs \<Rightarrow> int \<Rightarrow> rng \<Rightarrow> error + ((meta \<times> model_inputs) \<times> rng)" where
  "getitem_labels self m inputs ctx_l g =
     (case (if load_labels self
            then (if dset_name self = ''tvsum''
                  then (case get_saliency_labels_all_tvsum (label m) ctx_l 1 False g of
                          Inl e \<Rightarrow> Inl e
                        | Inr ((pos, neg, arr), g1) \<Rightarrow>
                            Inr ((m, inputs\<lparr>span_labels := Some (FloatSpans [(Fin 0, Fin 0)]),
                                           saliency_pos_labels := Some pos,
                                           saliency_neg_labels := Some neg,
                                           saliency_all_labels := Some arr\<rparr>, None), g1))
                  else (case get_span_labels (clip_len self) (max_windows self)
                               (span_loss_type self) (relevant_windows m) ctx_l g of
                          Inl e \<Rightarrow> Inl e
                        | Inr ((spans, lengths), (ws, g1)) \<Rightarrow>
                            (let m1 = m\<lparr>relevant_windows := ws\<rparr> in
                             case (if \<not> str_in ''subs_train'' (data_path self)
                                   then get_saliency_labels_all (relevant_clip_ids m1)
                                          (saliency_scores m1) ctx_l 1 True g1
                                   else (case relevant_windows m1 of
                                           [] \<Rightarrow> Inl IndexError
                                         | w # _ \<Rightarrow>
                                             get_saliency_labels_sub_as_query (clip_len self) w ctx_l 2 g1)) of
                               Inl e \<Rightarrow> Inl e
                             | Inr ((pos, neg, arr), g2) \<Rightarrow>
                                 Inr ((m1, inputs\<lparr>span_labels := Some spans,
                                                 saliency_pos_labels := Some pos,
                                                 saliency_neg_labels := Some neg,
                                                 saliency_all_labels := Some arr\<rparr>,
                                       Some lengths), g2))))
            else Inr ((m, inputs, None), g)) of
        Inl e \<Rightarrow> Inl e
      | Inr ((m', inputs', lengths), g') \<Rightarrow>
          (case moment_class_stage (m_vals self) lengths of
             Inl e \<Rightarrow> Inl e
           | Inr mc \<Rightarrow>
               Inr ((m', (case mc of None \<Rightarrow> inputs' | Some c \<Rightarrow> inputs'\<lparr>moment_class := Some c\<rparr>)),
                    g')))"

text \<open>
  \<open>__getitem__\<close> on the data list: \<open>meta = self.data[index]\<close>, then the lines above.
  The second component of the result is \<open>self.data\<close> after the call.
\<close>

definition getitem ::
  "config \<Rightarrow> meta list \<Rightarrow> int \<Rightarrow> model_inputs \<Rightarrow> int \<Rightarrow> rng \<Rightarrow>
     error + ((meta \<times> model_inputs) \<times> (meta list \<times> rng))" where
  "getitem self data index inputs ctx_l g =
     (case norm_index (length data) index of
        None \<Rightarrow> Inl IndexError
      | Some j \<Rightarrow>
          (case getitem_labels self (data ! j) inputs ctx_l g of
             Inl e \<Rightarrow> Inl e
           | Inr ((m', inputs'), g') \<Rightarrow>
               Inr ((m', inputs'), (data[j := m'], g'))))"

subsection \<open>\<open>start_end_collate\<close>\<close>

text \<open>
  Modelled from the spec: \<open>pad_sequences_1d\<close> of \<open>utils/tensor_utils.py\<close>, which is not
  among the sources. The spec has it pad every sequence to the batch's maximal length
  and return the padded data with a mask, one entry per position (real or padding).
  The padding entry is the argument \<open>zero\<close>.
\<close>

definition pad_sequences_1d :: "'a \<Rightarrow> 'a list list \<Rightarrow> 'a list list \<times> bool list list" where
  "pad_sequences_1d zero sequences =
     (let max_length = fold max (map length sequences) 0
      in (map (\<lambda>s. s @ replicate (max_length - length s) zero) sequences,
          map (\<lambda>s. replicate (length s) True @ replicate (max_length - length s) False)
            sequences))"

text \<open>The padding row of a batch of feature arrays: zeros, as wide as the first row.\<close>

definition zero_row :: "rat list list list \<Rightarrow> rat list" where
  "zero_row sequences =
     (case concat sequences of [] \<Rightarrow> [] | row # _ \<Rightarrow> replicate (length row) 0)"

text \<open>The values of the dictionary \<open>batched_data\<close>.\<close>

datatype batched =
    SpanDicts "span_tensor list"
  | LongTensor "int list list"
  | FloatTensor "rat list list"
  | MomentDicts "nat list list"
  | PaddedWithMask "rat list list list" "bool list list"

text \<open>\<open>[e["model_inputs"][k] for e in batch]\<close>: a missing key raises \<open>KeyError\<close>.\<close>

definition batch_column :: "(model_inputs \<Rightarrow> 'a option) \<Rightarrow> model_inputs list \<Rightarrow> error + 'a list" where
  "batch_column field batch =
     (case those (map field batch) of None \<Rightarrow> Inl KeyError | Some col \<Rightarrow> Inr col)"

text \<open>\<open>torch.LongTensor\<close> of a list of lists, which must have one length.\<close>

definition long_tensor :: "int list list \<Rightarrow> error + batched" where
  "long_tensor rows =
     (if list_all (\<lambda>r. length r = length (hd rows)) rows then Inr (LongTensor rows)
      else Inl ValueError)"

text \<open>\<open>batch[0]["model_inputs"].keys()\<close>, in the order of insertion.\<close>

definition model_inputs_keys :: "model_inputs \<Rightarrow> string list" where
  "model_inputs_keys e =
     (if query_feat e \<noteq> None then [''query_feat''] else []) @
     (if video_feat e \<noteq> None then [''video_feat''] else []) @
     (if span_labels e \<noteq> None then [''span_labels''] else []) @
     (if saliency_pos_labels e \<noteq> None then [''saliency_pos_labels''] else []) @
     (if saliency_neg_labels e \<noteq> None then [''saliency_neg_labels''] else []) @
     (if saliency_all_labels e \<noteq> None then [''saliency_all_labels''] else []) @
     (if moment_class e \<noteq> None then [''moment_class''] else [])"

text \<open>The body of the loop over the keys, lines 675 to 691.\<close>

definition collate_key :: "string \<Rightarrow> model_inputs list \<Rightarrow> error + batched" where
  "collate_key k batch =
     (if k = ''span_labels''
      then (case batch_column span_labels batch of
              Inl e \<Rightarrow> Inl e | Inr col \<Rightarrow> Inr (SpanDicts col))
      else if k = ''saliency_pos_labels''
      then (case batch_column saliency_pos_labels batch of
              Inl e \<Rightarrow> Inl e | Inr col \<Rightarrow> long_tensor col)
      else if k = ''saliency_neg_labels''
      then (case batch_column saliency_neg_labels batch of
              Inl e \<Rightarrow> Inl e | Inr col \<Rightarrow> long_tensor col)
      else if k = ''saliency_all_labels''
      then (case batch_column saliency_all_labels batch of
              Inl e \<Rightarrow> Inl e
            | Inr col \<Rightarrow>
                (case pad_sequences_1d 0 col of
                   (pad_data, mask_data) \<Rightarrow> Inr (FloatTensor pad_data)))
      else if k = ''moment_class''
      then (case batch_column moment_class batch of
              Inl e \<Rightarrow> Inl e | Inr col \<Rightarrow> Inr (MomentDicts col))
      else (case batch_column (if k = ''query_feat'' then query_feat else video_feat) batch of
              Inl e \<Rightarrow> Inl e
            | Inr col \<Rightarrow>
                (case pad_sequences_1d (zero_row col) col of
                   (pad_data, mask_data) \<Rightarrow> Inr (PaddedWithMask pad_data mask_data))))"

fun collate_keys :: "string list \<Rightarrow> model_inputs list \<Rightarrow> error + (string \<times> batched) list" where
  "collate_keys [] batch = Inr []"
| "collate_keys (k # ks) batch =
     (case collate_key k batch of
        Inl e \<Rightarrow> Inl e
      | Inr v \<Rightarrow>
          (case collate_keys ks batch of
             Inl e \<Rightarrow> Inl e
           | Inr kvs \<Rightarrow> Inr ((k, v) # kvs)))"

text \<open>
  An example is the pair of its \<open>meta\<close> and its \<open>model_inputs\<close>; \<open>batched_data\<close> is
  the list of its keys with their values.
\<close>

definition start_end_collate ::
  "('m \<times> model_inputs) list \<Rightarrow> error + ('m list \<times> (string \<times> batched) list)" where
  "start_end_collate batch =
     (let batch_meta = map fst batch
      in case batch of
           [] \<Rightarrow> Inl IndexError
         | e0 # _ \<Rightarrow>
             (case collate_keys (model_inputs_keys (snd e0)) (map snd batch) of
                Inl e \<Rightarrow> Inl e
              | Inr batched_data \<Rightarrow> Inr (batch_meta, batched_data)))"

text \<open>A \<open>model_inputs\<close> without keys, to build examples from.\<close>

definition no_inputs :: model_inputs where
  "no_inputs = \<lparr>query_feat = None, video_feat = None, span_labels = None,
     saliency_pos_labels = None, saliency_neg_labels = None, saliency_all_labels = None,
     moment_class = None\<rparr>"

subsection \<open>Examples and measures used in the statements\<close>

text \<open>The number of rows of a span tensor.\<close>

definition span_count :: "span_tensor \<Rightarrow> nat" where
  "span_count t = (case t of FloatSpans rows \<Rightarrow> length rows | LongSpans rows \<Rightarrow> length rows)"

text \<open>A dataset with \<open>max_windows = 2\<close> and a record with three relevant windows.\<close>

definition example_config :: config where
  "example_config =
     \<lparr>dset_name = ''hl'', data_path = ''data/highlight_train_release.jsonl'',
      load_labels = True, clip_len = 2, max_windows = 2, span_loss_type = ''l1'',
      m_vals = None\<rparr>"

definition example_meta :: meta where
  "example_meta =
     \<lparr>relevant_windows = [(0, 2), (4, 6), (8, 10)], relevant_clip_ids = [0, 2, 4],
      saliency_scores = [[1, 1, 1], [2, 2, 2], [3, 3, 3]], label = []\<rparr>"

text \<open>A batch of two examples whose dense score arrays have lengths 2 and 1.\<close>

definition example_batch :: "(unit \<times> model_inputs) list" where
  "example_batch =
     [((), no_inputs\<lparr>video_feat := Some [[1, 2], [3, 4]], saliency_all_labels := Some [1, 2]\<rparr>),
      ((), no_inputs\<lparr>video_feat := Some [[5, 6]], saliency_all_labels := Some [3]\<rparr>)]"

section \<open>Properties of the primitives\<close>

lemma sample_pool_length: "length (fst (sample_pool pool k g)) = k"
proof (induction k arbitrary: pool g)
  case 0 show ?case by simp
next
  case (Suc k)
  obtain j g1 where r: "randbelow (length pool) g = (j, g1)" by (cases "randbelow (length pool) g")
  obtain xs g2 where s: "sample_pool (butlast (pool[j := last pool])) k g1 = (xs, g2)"
    by (cases "sample_pool (butlast (pool[j := last pool])) k g1")
  from Suc.IH [of "butlast (pool[j := last pool])" g1] s have "length xs = k" by simp
  then show ?case using r s by simp
qed

lemma pool_step_set:
  assumes "pool \<noteq> []" "j < length pool"
  shows "set (butlast (pool[j := last pool])) \<subseteq> set pool"
proof -
  have "set (butlast (pool[j := last pool])) \<subseteq> set (pool[j := last pool])"
    by (auto dest: in_set_butlastD)
  also have "\<dots> \<subseteq> insert (last pool) (set pool)" by (rule set_update_subset_insert)
  also have "\<dots> = set pool" using assms by auto
  finally show ?thesis .
qed

lemma pool_step_distinct:
  assumes "distinct pool" "j < length pool"
  shows "distinct (butlast (pool[j := last pool])) \<and> pool ! j \<notin> set (butlast (pool[j := last pool]))"
proof (cases pool rule: rev_cases)
  case Nil
  then show ?thesis using assms by simp
next
  case (snoc ys l)
  show ?thesis
  proof (cases "j = length ys")
    case True
    then show ?thesis using snoc assms by simp
  next
    case False
    then have j: "j < length ys" using assms snoc by simp
    have d: "distinct ys" "l \<notin> set ys" using assms snoc by auto
    have upd: "butlast (pool[j := last pool]) = ys[j := l]"
      using snoc j by (simp add: list_update_append)
    have "set (ys[j := l]) = insert l (set ys - {ys ! j})"
      using d j by (simp add: set_update_distinct)
    moreover have "ys ! j \<noteq> l" using d j by (metis nth_mem)
    moreover have "distinct (ys[j := l])" using d by (simp add: distinct_list_update)
    moreover have "pool ! j = ys ! j" using snoc j by (simp add: nth_append)
    ultimately show ?thesis using upd by auto
  qed
qed

lemma sample_pool_set: "k \<le> length pool \<Longrightarrow> set (fst (sample_pool pool k g)) \<subseteq> set pool"
proof (induction k arbitrary: pool g)
  case 0 show ?case by simp
next
  case (Suc k)
  let ?j = "g 0 mod length pool"
  let ?p = "butlast (pool[?j := last pool])"
  have ne: "pool \<noteq> []" using Suc.prems by auto
  then have j: "?j < length pool" by simp
  have "k \<le> length ?p" using Suc.prems by simp
  from Suc.IH [OF this, of "\<lambda>i. g (Suc i)"] pool_step_set [OF ne j] j
  show ?case by (auto simp: randbelow_def split: prod.splits)
qed

lemma sample_pool_distinct:
  "k \<le> length pool \<Longrightarrow> distinct pool \<Longrightarrow> distinct (fst (sample_pool pool k g))"
proof (induction k arbitrary: pool g)
  case 0 show ?case by simp
next
  case (Suc k)
  let ?j = "g 0 mod length pool"
  let ?p = "butlast (pool[?j := last pool])"
  have ne: "pool \<noteq> []" using Suc.prems by auto
  then have j: "?j < length pool" by simp
  have len: "k \<le> length ?p" using Suc.prems by simp
  have dp: "distinct ?p" and nin: "pool ! ?j \<notin> set ?p"
    using pool_step_distinct [OF Suc.prems(2) j] by simp_all
  from Suc.IH [OF len dp, of "\<lambda>i. g (Suc i)"] sample_pool_set [OF len, of "\<lambda>i. g (Suc i)"] nin
  show ?case by (auto simp: randbelow_def split: prod.splits)
qed


lemma map_sum_fst_Inr:
  "map_sum id fst r = Inr x \<Longrightarrow> \<exists>s. r = Inr (x, s)"
  by (cases r) auto

lemma map_sum_fst_fst_snd_Inr:
  "map_sum id (\<lambda>r. (fst r, fst (snd r))) r0 = Inr (a, b) \<Longrightarrow> \<exists>s. r0 = Inr (a, (b, s))"
  by (cases r0) auto

lemma random_sample_ok:
  "k \<le> length pop \<Longrightarrow> random_sample pop k g = Inr (sample_pool pop k g)"
  by (simp add: random_sample_def)

lemma random_sample_props:
  assumes "random_sample pop k g = Inr (xs, g')"
  shows "length xs = k" and "set xs \<subseteq> set pop" and "distinct pop \<Longrightarrow> distinct xs"
proof -
  from assms have k: "k \<le> length pop" and s: "sample_pool pop k g = (xs, g')"
    by (auto simp: random_sample_def split: if_splits)
  from s have xs: "xs = fst (sample_pool pop k g)" by simp
  show "length xs = k" unfolding xs by (rule sample_pool_length)
  show "set xs \<subseteq> set pop" unfolding xs by (rule sample_pool_set [OF k])
  show "distinct pop \<Longrightarrow> distinct xs" unfolding xs by (rule sample_pool_distinct [OF k])
qed

lemma set_py_range: "set (py_range a b) = {a..b - 1}"
  by (simp add: py_range_def)

lemma distinct_py_range: "distinct (py_range a b)"
  by (simp add: py_range_def)

lemma length_py_range: "length (py_range a b) = nat (b - a)"
  by (simp add: py_range_def)

lemma gt_bounds_example: "gt_bounds 2 (10, 20) 50 = Inr (5, 9)"
  by (simp add: gt_bounds_def int_truediv_def signed_divide_int_def)

lemma slice_fill_example:
  "slice_fill (replicate 50 (0::rat)) 5 10 1 = replicate 5 0 @ replicate 5 1 @ replicate 40 0"
  by (simp add: slice_fill_def slice_bound_def)

section \<open>The subset-query builder\<close>

text \<open>
  C10. For \<open>gt_window = [10, 20]\<close>, \<open>clip_len = 2\<close> and \<open>ctx_l = 50\<close> the clip range is
  \<open>gt_st = 5\<close>, \<open>gt_ed = 9\<close>, and whatever the random source draws, the builder returns
  two distinct positive indices from \<open>{5..9}\<close>, two negative indices outside that range
  (and inside \<open>[0, 50)\<close>), and the dense array of length 50 that is one at positions 5 to
  9 and zero elsewhere.
\<close>

theorem sub_as_query_example:
  "gt_bounds 2 (10, 20) 50 = Inr (5, 9) \<and>
   (\<exists>pos neg g'.
      get_saliency_labels_sub_as_query 2 (10, 20) 50 2 g =
        Inr ((pos, neg, replicate 5 0 @ replicate 5 1 @ replicate 40 0), g') \<and>
      length pos = 2 \<and> distinct pos \<and> set pos \<subseteq> {5..9} \<and>
      length neg = 2 \<and> set neg \<subseteq> {0..49} - {5..9})"
proof -
  let ?pool = "py_range 5 (9 + 1)"
  let ?npool = "py_range 0 5 @ py_range (9 + 1) 50"
  obtain pos g1 where p: "random_sample ?pool 2 g = Inr (pos, g1)"
    by (cases "sample_pool ?pool 2 g") (simp add: random_sample_def length_py_range)
  obtain neg g2 where n: "random_sample ?npool 2 g1 = Inr (neg, g2)"
    by (cases "sample_pool ?npool 2 g1") (simp add: random_sample_def length_py_range)
  have z: "np_zeros 50 = Inr (replicate 50 0)" by (simp add: np_zeros_def)
  have res: "get_saliency_labels_sub_as_query 2 (10, 20) 50 2 g =
      Inr ((pos, neg, replicate 5 0 @ replicate 5 1 @ replicate 40 0), g2)"
    unfolding get_saliency_labels_sub_as_query_def
    using p n by (simp add: gt_bounds_example z slice_fill_example)
  have dp: "distinct ?pool" by (rule distinct_py_range)
  have sp: "set ?pool = {5..9}" by (simp add: set_py_range)
  have sn: "set ?npool = {0..4} \<union> {10..49}" by (simp add: set_py_range)
  have "length pos = 2" "set pos \<subseteq> {5..9}" "distinct pos"
    using random_sample_props [OF p] dp sp by simp_all
  moreover have "length neg = 2" "set neg \<subseteq> {0..4} \<union> {10..49}"
    using random_sample_props(1,2) [OF n] sn by simp_all
  moreover have "{0..4} \<union> {10..49} \<subseteq> {0..49} - {5..9::int}" by auto
  ultimately show ?thesis using res gt_bounds_example by blast
qed

text \<open>
  C3. The claim has the builder return normally when the complement of
  \<open>[gt_st, gt_ed]\<close> holds fewer than \<open>max_n\<close> clips. On a window that covers the whole
  video (\<open>[0, 100]\<close> seconds, 50 clips of 2 seconds) the negative pool is empty and
  \<open>random.sample\<close> raises \<open>ValueError\<close>, whatever the random source draws.
\<close>

theorem sub_as_query_whole_video_raises:
  "get_saliency_labels_sub_as_query 2 (0, 100) 50 2 g = Inl ValueError"
proof -
  have b: "gt_bounds 2 (0, 100) 50 = Inr (0, 49)"
    by (simp add: gt_bounds_def int_truediv_def signed_divide_int_def)
  obtain pos g1 where p: "random_sample (py_range 0 (49 + 1)) 2 g = Inr (pos, g1)"
    by (cases "sample_pool (py_range 0 (49 + 1)) 2 g") (simp add: random_sample_def length_py_range)
  have n: "random_sample (py_range 0 0 @ py_range (49 + 1) 50) 2 g1 = Inl ValueError"
    by (simp add: random_sample_def length_py_range)
  show ?thesis
    unfolding get_saliency_labels_sub_as_query_def using p n by (simp add: b)
qed

text \<open>
  On a window that starts at a non-negative second, with a positive \<open>clip_len\<close> and a
  positive \<open>ctx_l\<close>, every index this builder returns is a clip index of the video.
\<close>

lemma gt_bounds_range:
  assumes "gt_bounds cl w c = Inr (gt_st, gt_ed)" "0 < cl" "0 \<le> fst w" "0 < c"
  shows "0 \<le> gt_st \<and> gt_st \<le> gt_ed \<and> gt_ed < c"
proof -
  have "0 \<le> fst w sdiv cl" using assms(2,3)
    by (simp add: signed_divide_int_def sgn_if pos_imp_zdiv_nonneg_iff)
  with assms show ?thesis
    by (auto simp: gt_bounds_def int_truediv_def Let_def split: if_splits)
qed

lemma sub_as_query_indices_in_range:
  assumes run: "get_saliency_labels_sub_as_query cl w c n g = Inr ((pos, neg, arr), g')"
    and "0 < cl" "0 \<le> fst w" "0 < c"
  shows "\<forall>i\<in>set pos \<union> set neg. 0 \<le> i \<and> i < c"
proof -
  from run obtain gt_st gt_ed g1 where
    b: "gt_bounds cl w c = Inr (gt_st, gt_ed)" and
    p: "(if gt_st \<noteq> gt_ed then random_sample (py_range gt_st (gt_ed + 1)) n g
         else Inr ([gt_st, gt_st], g)) = Inr (pos, g1)" and
    ng: "random_sample (py_range 0 gt_st @ py_range (gt_ed + 1) c) n g1 = Inr (neg, g')"
    unfolding get_saliency_labels_sub_as_query_def
    by (auto split: sum.splits)
  note r = gt_bounds_range [OF b assms(2-4)]
  have "set pos \<subseteq> {gt_st..gt_ed}"
  proof (cases "gt_st = gt_ed")
    case True
    with p show ?thesis by auto
  next
    case False
    with p have "random_sample (py_range gt_st (gt_ed + 1)) n g = Inr (pos, g1)" by simp
    from random_sample_props(2) [OF this] show ?thesis by (simp add: set_py_range)
  qed
  moreover have "set neg \<subseteq> {0..gt_st - 1} \<union> {gt_ed + 1..c - 1}"
    using random_sample_props(2) [OF ng] by (simp add: set_py_range)
  ultimately show ?thesis using r by auto
qed

section \<open>The full-annotation builder\<close>

lemma all_run_resize:
  "map_sum id fst (get_saliency_labels_all [0, 3] [[1, 1, 1], [2, 2, 2]] 3 1 True (const_rng 1)) =
     Inr ([2, 3], [0, 2], [3, 0, 0, 6])"
  by code_simp

text \<open>
  An annotated id above \<open>ctx_l\<close> is out of range of the extended array too, and a
  second id that needs the resize meets an array that no longer fits the slice.
\<close>

lemma all_run_far_id:
  "map_sum id fst (get_saliency_labels_all [0, 4] [[1, 1, 1], [2, 2, 2]] 3 1 True (const_rng 1)) =
     Inl IndexError"
  by code_simp

lemma all_run_two_resizes:
  "map_sum id fst (get_saliency_labels_all [3, 3] [[1, 1, 1], [2, 2, 2]] 3 1 True (const_rng 1)) =
     Inl ValueError"
  by code_simp

lemma np_set_item_length: "np_set_item arr i v = Inr arr' \<Longrightarrow> length arr' = length arr"
  by (auto simp: np_set_item_def split: option.splits)

lemma resize_length:
  assumes "0 \<le> c" "grow_score_array c arr = Inr arr1"
  shows "length arr1 = nat c + 1"
proof -
  from assms(2) obtain new where new: "np_zeros (c + 1) = Inr new"
    and asg: "slice_assign_prefix new c arr = Inr arr1"
    by (auto simp: grow_score_array_def split: sum.splits)
  from assms(1) new have n: "length new = nat c + 1"
    by (auto simp: np_zeros_def nat_add_distrib split: if_splits)
  have hi: "slice_bound (length new) c = nat c" using assms(1) n by (simp add: slice_bound_def)
  from asg show ?thesis
    unfolding slice_assign_prefix_def Let_def hi using n
    by (auto split: if_splits)
qed

lemma py_get_nth: "idx < length xs \<Longrightarrow> py_get xs (int idx) = Inr (xs ! idx)"
  by (simp add: py_get_def norm_index_def)

lemma py_get_Inr: "py_get xs (int idx) = Inr x \<Longrightarrow> idx < length xs \<and> x = xs ! idx"
  by (auto simp: py_get_def norm_index_def split: if_splits)

lemma score_loop_length:
  assumes "score_loop ids aggs c idxs arr = Inr arr'" "0 \<le> c"
  shows "length arr' = (if list_ex (\<lambda>idx. ids ! idx \<ge> c) idxs then nat c + 1 else length arr)"
  using assms
proof (induction idxs arbitrary: arr)
  case Nil
  then show ?case by simp
next
  case (Cons idx rest)
  from Cons.prems(1) obtain cid arr1 a arr2 where
    cid: "py_get ids (int idx) = Inr cid" and
    grow: "(if cid \<ge> c then grow_score_array c arr else Inr arr) = Inr arr1" and
    a: "py_get aggs (int idx) = Inr a" and
    set: "np_set_item arr1 cid (of_int a) = Inr arr2" and
    rest: "score_loop ids aggs c rest arr2 = Inr arr'"
    by (auto split: sum.splits)
  have cid_eq: "cid = ids ! idx" using py_get_Inr [OF cid] by simp
  have l2: "length arr2 = length arr1" by (rule np_set_item_length [OF set])
  note IH = Cons.IH [OF rest Cons.prems(2)]
  show ?case
  proof (cases "cid \<ge> c")
    case True
    with grow have "grow_score_array c arr = Inr arr1" by simp
    then have "length arr1 = nat c + 1" using resize_length Cons.prems(2) by blast
    with IH l2 True cid_eq show ?thesis by simp
  next
    case False
    with grow have "arr1 = arr" by simp
    with IH l2 False cid_eq show ?thesis by simp
  qed
qed

lemma list_ex_upt_nth: "list_ex (\<lambda>idx. P (xs ! idx)) [0..<length xs] = list_ex P xs"
  unfolding list_ex_iff by (metis atLeastLessThan_iff in_set_conv_nth set_upt zero_le)

text \<open>
  C2, as amended. Whenever \<open>get_saliency_labels_all\<close> returns, the dense score array
  has length \<open>ctx_l\<close> if every annotated clip id is below \<open>ctx_l\<close>, and length
  \<open>ctx_l + 1\<close> if some id is at least \<open>ctx_l\<close>: the resize of lines 261 to 264 extends
  the array by one entry.
\<close>

theorem all_score_array_length:
  assumes "get_saliency_labels_all ids scores c n easy g = Inr ((pos, neg, arr), g')"
  shows "length arr = (if list_ex (\<lambda>i. i \<ge> c) ids then nat c + 1 else nat c)"
proof -
  from assms obtain aggs zeros where
    z: "np_zeros c = Inr zeros" and
    loop: "score_loop ids aggs c [0..<length ids] zeros = Inr arr"
    unfolding get_saliency_labels_all_def Let_def
    by (auto split: sum.splits if_splits prod.splits)
  from z have c: "0 \<le> c" and lz: "length zeros = nat c"
    by (auto simp: np_zeros_def split: if_splits)
  from score_loop_length [OF loop c] lz show ?thesis
    by (simp add: list_ex_upt_nth)
qed

theorem all_score_array_length_witness:
  "\<exists>g'. get_saliency_labels_all [0, 3] [[1, 1, 1], [2, 2, 2]] 3 1 True (const_rng 1) =
     Inr (([2, 3], [0, 2], [3, 0, 0, 6]), g') \<and>
   length [3, 0, 0, 6 :: rat] = (if list_ex (\<lambda>i. i \<ge> 3) [0, 3 :: int] then nat 3 + 1 else nat 3)"
proof -
  from map_sum_fst_Inr [OF all_run_resize] obtain g' where
    run: "get_saliency_labels_all [0, 3] [[1, 1, 1], [2, 2, 2]] 3 1 True (const_rng 1) =
      Inr (([2, 3], [0, 2], [3, 0, 0, 6]), g')" by blast
  from all_score_array_length [OF run] run show ?thesis by blast
qed

text \<open>
  C2, the claim as stated fails: with \<open>ctx_l = 3\<close> and the annotated clip ids 0 and 3
  the builder returns a dense array of four entries, not three.
\<close>

theorem all_score_array_longer_than_ctx_l:
  "map_sum id (\<lambda>r. length (snd (snd (fst r))))
     (get_saliency_labels_all [0, 3] [[1, 1, 1], [2, 2, 2]] 3 1 True (const_rng 1)) = Inr 4"
  by code_simp

text \<open>
  C1. The claim has every positive index in \<open>[0, ctx_l)\<close>, also when \<open>rel_clip_ids\<close> holds an
  id that is at least \<open>ctx_l\<close>. With \<open>ctx_l = 3\<close> and the ids 0 and 3 the hard positive is
  clamped to 2, but the easy positive is sampled from \<open>rel_clip_ids\<close> as it is: when the
  draw selects the second id, the positive indices are 2 and 3.
\<close>

theorem all_easy_positive_not_clamped:
  "map_sum id (\<lambda>r. fst (fst r))
     (get_saliency_labels_all [0, 3] [[1, 1, 1], [2, 2, 2]] 3 1 True (const_rng 1)) = Inr [2, 3]"
  by code_simp

text \<open>
  When every annotated id is a clip index of the video, so is every index the builder
  returns: the hard indices by the clamp, the easy ones as members of \<open>rel_clip_ids\<close>
  and of the pool.
\<close>

lemma clamp_ids_range:
  assumes "clamp_ids ids c idxs = Inr cs" "0 < c" "\<forall>i\<in>set ids. 0 \<le> i"
  shows "\<forall>i\<in>set cs. 0 \<le> i \<and> i < c"
  using assms(1)
proof (induction idxs arbitrary: cs)
  case Nil
  then show ?case by simp
next
  case (Cons idx rest)
  from Cons.prems obtain cid cs' where
    cid: "py_get ids (int idx) = Inr cid" and rest: "clamp_ids ids c rest = Inr cs'"
    and cs: "cs = min cid (c - 1) # cs'"
    by (auto split: sum.splits)
  from cid have "cid \<in> set ids" by (auto simp: py_get_def norm_index_def split: if_splits)
  with assms(3) have "0 \<le> cid" by blast
  with Cons.IH [OF rest] cs assms(2) show ?case by auto
qed

lemma set_easy_neg_pool: "set (easy_neg_pool c ids) = {0..c - 1} - set ids"
  by (auto simp: easy_neg_pool_def set_py_range)

lemma easy_clip_indices_sets:
  assumes "easy_clip_indices easy c ids n hp hn g = Inr ((ep, en), g')"
  shows "set ep \<subseteq> set ids \<union> set hp" and "set en \<subseteq> set (easy_neg_pool c ids) \<union> set hn"
proof -
  have "set ep \<subseteq> set ids \<union> set hp \<and> set en \<subseteq> set (easy_neg_pool c ids) \<union> set hn"
  proof (cases "easy \<and> n \<le> length (easy_neg_pool c ids)")
    case True
    with assms obtain g1 where
      "random_sample ids n g = Inr (ep, g1)"
      "random_sample (easy_neg_pool c ids) n g1 = Inr (en, g')"
      by (auto simp: easy_clip_indices_def Let_def split: sum.splits)
    then show ?thesis using random_sample_props(2) by blast
  next
    case False
    with assms show ?thesis
      by (auto simp: easy_clip_indices_def Let_def split: if_splits)
  qed
  then show "set ep \<subseteq> set ids \<union> set hp" and "set en \<subseteq> set (easy_neg_pool c ids) \<union> set hn"
    by simp_all
qed

lemma all_indices_in_range:
  assumes run: "get_saliency_labels_all ids scores c n easy g = Inr ((pos, neg, arr), g')"
    and c: "0 < c" and ids: "\<forall>i\<in>set ids. 0 \<le> i \<and> i < c"
  shows "\<forall>i\<in>set pos \<union> set neg. 0 \<le> i \<and> i < c"
proof -
  from ids have nn: "\<forall>i\<in>set ids. 0 \<le> i" by blast
  from run obtain aggs hp hn ep en where
    hp: "clamp_ids ids c (last_n n (argsort aggs)) = Inr hp" and
    hn: "clamp_ids ids c (take n (argsort aggs)) = Inr hn" and
    easy: "easy_clip_indices easy c ids n hp hn g = Inr ((ep, en), g')" and
    pos: "pos = hp @ ep" and neg: "neg = hn @ en"
    unfolding get_saliency_labels_all_def Let_def
    by (auto split: sum.splits)
  note hpr = clamp_ids_range [OF hp c nn] and hnr = clamp_ids_range [OF hn c nn]
  note sets = easy_clip_indices_sets [OF easy]
  show ?thesis
  proof
    fix i assume "i \<in> set pos \<union> set neg"
    with pos neg sets have "i \<in> set hp \<or> i \<in> set hn \<or> i \<in> set ids \<or> i \<in> set (easy_neg_pool c ids)"
      by auto
    with hpr hnr ids show "0 \<le> i \<and> i < c"
      by (auto simp: set_easy_neg_pool)
  qed
qed

text \<open>
  The fallback of lines 281 to 283: when the pool of clips outside \<open>rel_clip_ids\<close>
  holds fewer than \<open>max_n\<close> clips, nothing is sampled and the hard indices are returned
  twice.
\<close>

lemma all_run_fallback:
  "map_sum id fst
     (get_saliency_labels_all [0, 1, 2] [[1, 1, 1], [2, 2, 2], [0, 0, 1]] 3 1 True (const_rng 1)) =
     Inr ([1, 1], [2, 2], [3, 6, 1])"
  by code_simp

lemma all_small_pool_falls_back:
  assumes "length (easy_neg_pool c ids) < n"
    and "get_saliency_labels_all ids scores c n True g = Inr ((pos, neg, arr), g')"
  shows "\<exists>hard_pos hard_neg. pos = hard_pos @ hard_pos \<and> neg = hard_neg @ hard_neg \<and> g' = g"
  using assms unfolding get_saliency_labels_all_def easy_clip_indices_def Let_def
  by (auto split: sum.splits)

section \<open>The summarization-curve builder\<close>

text \<open>The indices are positions of the truncated curve, clamped to \<open>ctx_l - 1\<close>.\<close>

lemma tvsum_indices_in_range:
  assumes "get_saliency_labels_all_tvsum labels c n easy g = Inr ((pos, neg, arr), g')" "0 < c"
  shows "\<forall>i\<in>set pos \<union> set neg. 0 \<le> i \<and> i < c"
  using assms unfolding get_saliency_labels_all_tvsum_def Let_def
  by (auto split: sum.splits if_splits)

section \<open>The span label builder\<close>

lemma swap_items_mset:
  "i < length xs \<Longrightarrow> j < length xs \<Longrightarrow> mset (swap_items i j xs) = mset xs"
  unfolding swap_items_def by (simp add: mset_swap)

lemma swap_items_length: "length (swap_items i j xs) = length xs"
  by (simp add: swap_items_def)

lemma shuffle_steps_mset:
  "i < length xs \<Longrightarrow> mset (fst (shuffle_steps i xs g)) = mset xs"
proof (induction i arbitrary: xs g)
  case 0
  show ?case by simp
next
  case (Suc i)
  let ?j = "g 0 mod Suc (Suc i)"
  have j: "?j < length xs" using Suc.prems by (meson less_Suc_eq_le mod_less_divisor order_le_less_trans zero_less_Suc)
  have "i < length (swap_items (Suc i) ?j xs)" using Suc.prems by (simp add: swap_items_length)
  from Suc.IH [OF this, of "\<lambda>k. g (Suc k)"] swap_items_mset [OF Suc.prems j]
  show ?case by (simp add: randbelow_def)
qed

lemma random_shuffle_mset: "mset (fst (random_shuffle xs g)) = mset xs"
proof (cases xs)
  case Nil
  then show ?thesis by (simp add: random_shuffle_def)
next
  case (Cons a list)
  then have "length xs - 1 < length xs" by simp
  then show ?thesis unfolding random_shuffle_def by (rule shuffle_steps_mset)
qed

lemma random_shuffle_length: "length (fst (random_shuffle xs g)) = length xs"
  using random_shuffle_mset [of xs g] by (metis size_mset)

lemma subsample_windows_props:
  assumes "subsample_windows mw ws g = ((ws', kept), g')"
  shows "mset ws' = mset ws"
    and "kept = (if mw < length ws then take mw ws' else ws)"
    and "length ws \<le> mw \<Longrightarrow> ws' = ws \<and> g' = g"
    and "length kept = (if mw < length ws then mw else length ws)"
proof -
  show m: "mset ws' = mset ws"
    using assms random_shuffle_mset [of ws g]
    by (auto simp: subsample_windows_def split: if_splits prod.splits)
  show k: "kept = (if mw < length ws then take mw ws' else ws)"
    using assms by (auto simp: subsample_windows_def split: if_splits prod.splits)
  show "length ws \<le> mw \<Longrightarrow> ws' = ws \<and> g' = g"
    using assms by (auto simp: subsample_windows_def split: if_splits prod.splits)
  have "length ws' = length ws" using m by (metis size_mset)
  then show "length kept = (if mw < length ws then mw else length ws)"
    using k by simp
qed

lemma ce_spans_rows:
  "ce_spans cl c ks = Inr rows \<Longrightarrow>
     rows = map (\<lambda>w. (fst w sdiv cl, min (snd w sdiv cl) c - 1)) ks"
proof (induction ks arbitrary: rows)
  case Nil
  then show ?case by simp
next
  case (Cons w ks)
  from Cons.prems obtain row rest where
    row: "ce_span cl c w = Inr row" and rest: "ce_spans cl c ks = Inr rest"
    and rows: "rows = row # rest"
    by (auto split: sum.splits)
  from row have "row = (fst w sdiv cl, min (snd w sdiv cl) c - 1)"
    by (auto simp: ce_span_def int_truediv_def split: sum.splits if_splits)
  with Cons.IH [OF rest] rows show ?case by simp
qed

lemma get_span_labels_subsample:
  assumes "get_span_labels cl mw t ws c g = Inr (r, (ws', g'))"
  shows "\<exists>kept. subsample_windows mw ws g = ((ws', kept), g')"
proof -
  obtain cw kept g1 where sub: "subsample_windows mw ws g = ((cw, kept), g1)"
    by (metis surj_pair)
  with assms have "ws' = cw" "g' = g1"
    by (auto simp: get_span_labels_def Let_def split: if_splits sum.splits)
  with sub show ?thesis by blast
qed

text \<open>
  The method returns in the \<open>l1\<close> regime, and in the \<open>ce\<close> regime unless \<open>clip_len\<close>
  is zero.
\<close>

lemma get_span_labels_returns:
  assumes "t = ''l1'' \<or> (t = ''ce'' \<and> cl \<noteq> 0)"
  shows "\<exists>r. get_span_labels cl mw t ws c g = Inr r"
proof -
  have ce: "\<exists>rows. ce_spans cl c ks = Inr rows" if "cl \<noteq> 0" for ks
    using that by (induction ks) (auto simp: ce_span_def int_truediv_def)
  obtain cw kept g1 where sub: "subsample_windows mw ws g = ((cw, kept), g1)"
    by (metis surj_pair)
  from assms show ?thesis
  proof
    assume "t = ''l1''"
    with sub show ?thesis by (simp add: get_span_labels_def)
  next
    assume a: "t = ''ce'' \<and> cl \<noteq> 0"
    with ce [of kept] obtain rows where "ce_spans cl c kept = Inr rows" by blast
    with a sub show ?thesis by (simp add: get_span_labels_def)
  qed
qed


text \<open>
  C7. Whenever \<open>get_span_labels\<close> returns, the number of spans is \<open>max_windows\<close> if
  the input holds more than \<open>max_windows\<close> windows and the number of input windows
  otherwise; the raw lengths are as many; and with \<open>kept\<close> the windows the method goes
  on with (the first \<open>max_windows\<close> of the shuffled list, or the input itself), entry
  \<open>i\<close> of the lengths is \<open>end - start\<close> of \<open>kept ! i\<close> and row \<open>i\<close> of the spans is the
  transform of \<open>kept ! i\<close>.
\<close>

theorem get_span_labels_counts:
  assumes "get_span_labels cl mw t ws c g = Inr ((spans, lengths), (ws', g'))"
  shows "span_count spans = (if mw < length ws then mw else length ws) \<and>
    length lengths = span_count spans \<and>
    (\<exists>kept. kept = (if mw < length ws then take mw ws' else ws) \<and>
       mset ws' = mset ws \<and>
       lengths = map (\<lambda>w. snd w - fst w) kept \<and>
       (t = ''l1'' \<longrightarrow> spans = FloatSpans (map (\<lambda>w. xx_to_cxw (flt_div (fst w) (c * cl), flt_div (snd w) (c * cl))) kept)) \<and>
       (t = ''ce'' \<longrightarrow> spans = LongSpans (map (\<lambda>w. (fst w sdiv cl, min (snd w sdiv cl) c - 1)) kept)))"
proof -
  obtain cw kept g1 where sub: "subsample_windows mw ws g = ((cw, kept), g1)"
    by (metis surj_pair)
  note props = subsample_windows_props [OF sub]
  consider (l1) "t = ''l1''" | (ce) "t = ''ce''" | (other) "t \<noteq> ''l1''" "t \<noteq> ''ce''"
    by blast
  then show ?thesis
  proof cases
    case l1
    with assms sub have
      "spans = FloatSpans (map (\<lambda>w. xx_to_cxw (flt_div (fst w) (c * cl), flt_div (snd w) (c * cl))) kept)"
      "lengths = map (\<lambda>w. snd w - fst w) kept" "ws' = cw"
      by (simp_all add: get_span_labels_def span_xx_to_cxw_def comp_def)
    with props l1 show ?thesis by (simp add: span_count_def)
  next
    case ce
    with assms sub obtain rows where
      "ce_spans cl c kept = Inr rows" "spans = LongSpans rows"
      "lengths = map (\<lambda>w. snd w - fst w) kept" "ws' = cw"
      by (auto simp: get_span_labels_def split: sum.splits)
    with props ce ce_spans_rows [of cl c kept rows] show ?thesis by (simp add: span_count_def)
  next
    case other
    with assms sub show ?thesis by (simp add: get_span_labels_def)
  qed
qed

lemma span_run_subsampled:
  "map_sum id (\<lambda>r. (fst r, fst (snd r)))
     (get_span_labels 2 2 ''ce'' [(0, 2), (4, 6), (8, 10)] 75 (const_rng 0)) =
   Inr ((LongSpans [(2, 2), (4, 4)], [2, 2]), [(4, 6), (8, 10), (0, 2)])"
  by code_simp

lemma span_run_docstring:
  "map_sum id (\<lambda>r. (fst r, fst (snd r)))
     (get_span_labels 2 5 ''ce'' [(26, 36)] 75 (const_rng 0)) =
   Inr ((LongSpans [(13, 17)], [10]), [(26, 36)])"
  by code_simp

lemma span_run_zero_length:
  "map_sum id (\<lambda>r. (fst r, fst (snd r)))
     (get_span_labels 2 5 ''ce'' [(0, 0)] 50 (const_rng 0)) =
   Inr ((LongSpans [(0, - 1)], [0]), [(0, 0)])"
  by code_simp

theorem get_span_labels_counts_witness:
  "\<exists>g'. get_span_labels 2 2 ''ce'' [(0, 2), (4, 6), (8, 10)] 75 (const_rng 0) =
          Inr ((LongSpans [(2, 2), (4, 4)], [2, 2]), ([(4, 6), (8, 10), (0, 2)], g')) \<and>
        span_count (LongSpans [(2, 2), (4, 4)]) = 2 \<and>
        length [2, 2 :: int] = span_count (LongSpans [(2, 2), (4, 4)])"
proof -
  from map_sum_fst_fst_snd_Inr [OF span_run_subsampled] obtain g' where
    run: "get_span_labels 2 2 ''ce'' [(0, 2), (4, 6), (8, 10)] 75 (const_rng 0) =
      Inr ((LongSpans [(2, 2), (4, 4)], [2, 2]), ([(4, 6), (8, 10), (0, 2)], g'))" by blast
  from get_span_labels_counts [OF run] have
    count: "span_count (LongSpans [(2, 2), (4, 4)]) = 2" and
    same: "length [2, 2 :: int] = span_count (LongSpans [(2, 2), (4, 4)])"
    by simp_all
  show ?thesis
  proof (intro exI conjI)
    show "get_span_labels 2 2 ''ce'' [(0, 2), (4, 6), (8, 10)] 75 (const_rng 0) =
      Inr ((LongSpans [(2, 2), (4, 4)], [2, 2]), ([(4, 6), (8, 10), (0, 2)], g'))" by (rule run)
    show "span_count (LongSpans [(2, 2), (4, 4)]) = 2" by (rule count)
    show "length [2, 2 :: int] = span_count (LongSpans [(2, 2), (4, 4)])" by (rule same)
  qed
qed

text \<open>
  C5, as amended. Whenever \<open>get_span_labels\<close> returns, the caller's window list holds
  the same windows as before, each as often as before; it is unchanged when it holds at
  most \<open>max_windows\<close> windows. With more windows it has been shuffled in place.
\<close>

theorem get_span_labels_callers_windows:
  assumes "get_span_labels cl mw t ws c g = Inr (r, (ws', g'))"
  shows "mset ws' = mset ws \<and> (length ws \<le> mw \<longrightarrow> ws' = ws)"
proof -
  obtain cw kept g1 where sub: "subsample_windows mw ws g = ((cw, kept), g1)"
    by (metis surj_pair)
  from assms sub have "ws' = cw"
    by (auto simp: get_span_labels_def Let_def split: if_splits sum.splits)
  with subsample_windows_props(1,3) [OF sub] show ?thesis by simp
qed

theorem get_span_labels_callers_windows_witness:
  "\<exists>g'. get_span_labels 2 5 ''ce'' [(26, 36)] 75 (const_rng 0) =
          Inr ((LongSpans [(13, 17)], [10]), ([(26, 36)], g')) \<and>
        length [(26, 36 :: int)] \<le> 5"
proof -
  from map_sum_fst_fst_snd_Inr [OF span_run_docstring] obtain g' where
    run: "get_span_labels 2 5 ''ce'' [(26, 36)] 75 (const_rng 0) =
      Inr ((LongSpans [(13, 17)], [10]), ([(26, 36)], g'))" by blast
  from get_span_labels_callers_windows [OF run] run show ?thesis by auto
qed

text \<open>
  C5, the claim as stated fails: with three windows and \<open>max_windows = 2\<close> the caller's
  list \<open>[(0, 2), (4, 6), (8, 10)]\<close> is \<open>[(4, 6), (8, 10), (0, 2)]\<close> after the call, and
  after \<open>__getitem__\<close> the record in the data list holds the windows in that new order.
\<close>

lemma getitem_run_shuffled:
  "map_sum id (\<lambda>r. map relevant_windows (fst (snd r)))
     (getitem example_config [example_meta] 0 no_inputs 75 (const_rng 0)) =
   Inr [[(4, 6), (8, 10), (0, 2)]]"
  by code_simp

theorem get_span_labels_shuffles_callers_list:
  "map_sum id (\<lambda>r. fst (snd r))
     (get_span_labels 2 2 ''ce'' [(0, 2), (4, 6), (8, 10)] 75 (const_rng 0)) =
   Inr [(4, 6), (8, 10), (0, 2)] \<and>
   map_sum id (\<lambda>r. map relevant_windows (fst (snd r)))
     (getitem example_config [example_meta] 0 no_inputs 75 (const_rng 0)) =
   Inr [[(4, 6), (8, 10), (0, 2)]] \<and>
   relevant_windows example_meta = [(0, 2), (4, 6), (8, 10)]"
proof (intro conjI)
  show "map_sum id (\<lambda>r. fst (snd r))
     (get_span_labels 2 2 ''ce'' [(0, 2), (4, 6), (8, 10)] 75 (const_rng 0)) =
   Inr [(4, 6), (8, 10), (0, 2)]"
    by code_simp
  show "map_sum id (\<lambda>r. map relevant_windows (fst (snd r)))
     (getitem example_config [example_meta] 0 no_inputs 75 (const_rng 0)) =
   Inr [[(4, 6), (8, 10), (0, 2)]]"
    by (rule getitem_run_shuffled)
  show "relevant_windows example_meta = [(0, 2), (4, 6), (8, 10)]"
    by (simp add: example_meta_def)
qed




section \<open>Example assembly and construction\<close>

text \<open>
  What \<open>__getitem__\<close> does to the data list: the record at \<open>index\<close> is replaced by
  the returned \<open>meta\<close>, whose windows are those of the old record in some order and whose
  other fields are the old ones; every other record stays.
\<close>

lemma getitem_labels_frame:
  assumes "getitem_labels self m inputs c g = Inr ((m', inputs'), g')"
  shows "mset (relevant_windows m') = mset (relevant_windows m) \<and>
         relevant_clip_ids m' = relevant_clip_ids m \<and>
         saliency_scores m' = saliency_scores m \<and> label m' = label m"
proof (cases "load_labels self \<and> dset_name self \<noteq> ''tvsum''")
  case True
  with assms obtain spans lengths ws g1 where
    span: "get_span_labels (clip_len self) (max_windows self) (span_loss_type self)
             (relevant_windows m) c g = Inr ((spans, lengths), (ws, g1))"
    and m': "m' = m\<lparr>relevant_windows := ws\<rparr>"
    unfolding getitem_labels_def Let_def
    by (auto split: sum.splits if_splits option.splits)
  from get_span_labels_subsample [OF span] obtain kept where
    "subsample_windows (max_windows self) (relevant_windows m) g = ((ws, kept), g1)" by blast
  from subsample_windows_props(1) [OF this] m' show ?thesis by simp
next
  case False
  with assms have "m' = m"
    unfolding getitem_labels_def
    by (auto split: sum.splits if_splits option.splits)
  then show ?thesis by simp
qed

lemma getitem_frame:
  assumes "getitem self data index inputs c g = Inr ((m', inputs'), (data', g'))"
  shows "length data' = length data \<and>
         (\<exists>j < length data. data' = data[j := m'] \<and>
            mset (relevant_windows m') = mset (relevant_windows (data ! j)) \<and>
            relevant_clip_ids m' = relevant_clip_ids (data ! j) \<and>
            saliency_scores m' = saliency_scores (data ! j) \<and> label m' = label (data ! j))"
proof -
  from assms obtain j where j: "norm_index (length data) index = Some j"
    and run: "getitem_labels self (data ! j) inputs c g = Inr ((m', inputs'), g')"
    and d: "data' = data[j := m']"
    unfolding getitem_def by (auto split: option.splits sum.splits)
  from j have "j < length data" by (auto simp: norm_index_def split: if_splits)
  with getitem_labels_frame [OF run] d show ?thesis by auto
qed










text \<open>
  The stage inside \<open>__getitem__\<close>: the example record has windows of length 2, so the
  single threshold 1 fails the assertion, and the thresholds 1, 30, 150 give class 1 to
  both retained spans.
\<close>

lemma getitem_run_assertion:
  "map_sum id fst
     (getitem (example_config\<lparr>m_vals := Some [1]\<rparr>) [example_meta] 0 no_inputs 75 (const_rng 0)) =
   Inl (AssertionError 183)"
  by code_simp

lemma getitem_run_moment_class:
  "map_sum id (\<lambda>r. moment_class (snd (fst r)))
     (getitem (example_config\<lparr>m_vals := Some [1, 30, 150]\<rparr>) [example_meta] 0 no_inputs 75
        (const_rng 0)) =
   Inr (Some [1, 1])"
  by code_simp

lemma str_in_iff: "str_in sub s \<longleftrightarrow> (\<exists>pre post. s = pre @ sub @ post)"
proof (induction s)
  case Nil
  show ?case by auto
next
  case (Cons c cs)
  show ?case
  proof
    assume "str_in sub (c # cs)"
    then consider "prefix sub (c # cs)" | "str_in sub cs" by auto
    then show "\<exists>pre post. c # cs = pre @ sub @ post"
    proof cases
      case 1
      then obtain post where "c # cs = sub @ post" by (auto simp: prefix_def)
      then have "c # cs = [] @ sub @ post" by simp
      then show ?thesis by blast
    next
      case 2
      with Cons.IH obtain pre post where "cs = pre @ sub @ post" by blast
      then have "c # cs = (c # pre) @ sub @ post" by simp
      then show ?thesis by blast
    qed
  next
    assume "\<exists>pre post. c # cs = pre @ sub @ post"
    then obtain pre post where eq: "c # cs = pre @ sub @ post" by blast
    show "str_in sub (c # cs)"
    proof (cases pre)
      case Nil
      with eq have "prefix sub (c # cs)" by (simp add: prefix_def)
      then show ?thesis by simp
    next
      case (Cons p pre')
      with eq have "cs = pre' @ sub @ post" by simp
      with Cons.IH have "str_in sub cs" by blast
      then show ?thesis by simp
    qed
  qed
qed

text \<open>
  C9. When the data path contains \<open>val\<close> or \<open>test\<close> and \<open>txt_drop_ratio\<close> is positive,
  \<open>__init__\<close> fails the assertion of line 60, before the annotation file is read. With
  \<open>txt_drop_ratio = 0\<close> that assertion does not fail, and with a valid \<open>q_feat_type\<close>
  control reaches \<open>load_data\<close>.
\<close>

theorem init_txt_drop_guard:
  "((str_in ''val'' p \<or> str_in ''test'' p) \<and> 0 < r \<longrightarrow>
      init_checks p r q = Inl (AssertionError 60)) \<and>
   (r = 0 \<longrightarrow> init_checks p r q \<noteq> Inl (AssertionError 60)) \<and>
   (r = 0 \<and> q \<in> set Q_FEAT_TYPES \<longrightarrow> init_checks p r q = Inr ())"
  by (simp add: init_checks_def)

theorem init_txt_drop_guard_witness:
  "init_checks ''data/highlight_val_release.jsonl'' (1 / 2) ''last_hidden_state'' =
     Inl (AssertionError 60) \<and>
   init_checks ''data/highlight_val_release.jsonl'' 0 ''last_hidden_state'' = Inr ()"
  using init_txt_drop_guard [of "''data/highlight_val_release.jsonl''" "1 / 2" "''last_hidden_state''"]
    init_txt_drop_guard [of "''data/highlight_val_release.jsonl''" 0 "''last_hidden_state''"]
  by (simp add: Q_FEAT_TYPES_def)

section \<open>The batch collator\<close>

lemma fold_max_ge: "a \<le> fold max xs (a::nat)"
proof (induction xs arbitrary: a)
  case Nil show ?case by simp
next
  case (Cons x xs)
  have "a \<le> max x a" by simp
  also have "\<dots> \<le> fold max xs (max x a)" by (rule Cons.IH)
  finally show ?case by simp
qed

lemma fold_max_mem: "x \<in> set xs \<Longrightarrow> x \<le> fold max xs (a::nat)"
proof (induction xs arbitrary: a)
  case Nil then show ?case by simp
next
  case (Cons y ys)
  show ?case
  proof (cases "x = y")
    case True
    have "x \<le> max y a" using True by simp
    also have "\<dots> \<le> fold max ys (max y a)" by (rule fold_max_ge)
    finally show ?thesis by simp
  next
    case False
    with Cons.prems have "x \<in> set ys" by simp
    from Cons.IH [OF this] show ?thesis by simp
  qed
qed

lemma pad_sequences_1d_rows:
  "fst (pad_sequences_1d z seqs) =
     map (\<lambda>s. s @ replicate (fold max (map length seqs) 0 - length s) z) seqs"
  by (simp add: pad_sequences_1d_def Let_def)

lemma pad_sequences_1d_row_length:
  assumes "row \<in> set (fst (pad_sequences_1d z seqs))"
  shows "length row = fold max (map length seqs) 0"
proof -
  from assms obtain s where s: "s \<in> set seqs"
    and row: "row = s @ replicate (fold max (map length seqs) 0 - length s) z"
    by (auto simp: pad_sequences_1d_rows)
  have "length s \<le> fold max (map length seqs) 0"
    using s by (intro fold_max_mem) simp
  with row show ?thesis by simp
qed

lemma collate_keys_lookup:
  "collate_keys ks b = Inr kvs \<Longrightarrow> k \<in> set ks \<Longrightarrow>
     \<exists>v. collate_key k b = Inr v \<and> map_of kvs k = Some v"
proof (induction ks arbitrary: kvs)
  case Nil
  then show ?case by simp
next
  case (Cons k' ks)
  from Cons.prems(1) obtain v' rest where
    v': "collate_key k' b = Inr v'" and rest: "collate_keys ks b = Inr rest"
    and kvs: "kvs = (k', v') # rest"
    by (auto split: sum.splits)
  show ?case
  proof (cases "k = k'")
    case True
    with v' kvs show ?thesis by simp
  next
    case False
    with Cons.prems(2) have "k \<in> set ks" by simp
    from Cons.IH [OF rest this] False kvs show ?thesis by simp
  qed
qed

lemma collate_key_saliency_all:
  assumes "collate_key ''saliency_all_labels'' b = Inr v"
  shows "\<exists>seqs. those (map saliency_all_labels b) = Some seqs \<and>
           v = FloatTensor (fst (pad_sequences_1d 0 seqs))"
  using assms
  by (auto simp: collate_key_def batch_column_def split: option.splits prod.splits)

text \<open>
  C6, as amended. When the first example of a batch holds a dense score array and
  \<open>start_end_collate\<close> returns, every example holds one, and the value of the key
  \<open>saliency_all_labels\<close> is a single tensor: the arrays, each padded with zero to the
  maximal length of the batch. The mask that \<open>pad_sequences_1d\<close> returns is not part of
  the value.
\<close>

theorem collate_saliency_all_labels:
  assumes "start_end_collate batch = Inr (metas, batched_data)"
    and "saliency_all_labels (snd (hd batch)) \<noteq> None"
  shows "\<exists>seqs. those (map (\<lambda>e. saliency_all_labels (snd e)) batch) = Some seqs \<and>
           map_of batched_data ''saliency_all_labels'' =
             Some (FloatTensor (map (\<lambda>s. s @ replicate (fold max (map length seqs) 0 - length s) 0) seqs)) \<and>
           list_all (\<lambda>s. length s \<le> fold max (map length seqs) 0) seqs"
proof -
  from assms(1) obtain e0 rest where b: "batch = e0 # rest"
    and keys: "collate_keys (model_inputs_keys (snd e0)) (map snd batch) = Inr batched_data"
    by (auto simp: start_end_collate_def split: list.splits sum.splits)
  from assms(2) b have "''saliency_all_labels'' \<in> set (model_inputs_keys (snd e0))"
    by (simp add: model_inputs_keys_def)
  from collate_keys_lookup [OF keys this] obtain v where
    v: "collate_key ''saliency_all_labels'' (map snd batch) = Inr v"
    and look: "map_of batched_data ''saliency_all_labels'' = Some v" by blast
  from collate_key_saliency_all [OF v] obtain seqs where
    seqs: "those (map saliency_all_labels (map snd batch)) = Some seqs"
    and veq: "v = FloatTensor (fst (pad_sequences_1d 0 seqs))" by blast
  have "list_all (\<lambda>s. length s \<le> fold max (map length seqs) 0) seqs"
    by (simp add: list_all_iff fold_max_mem)
  with seqs veq look show ?thesis
    by (simp add: pad_sequences_1d_rows comp_def)
qed

lemma collate_run:
  "start_end_collate example_batch =
     Inr ([(), ()],
       [(''video_feat'', PaddedWithMask [[[1, 2], [3, 4]], [[5, 6], [0, 0]]]
                           [[True, True], [True, False]]),
        (''saliency_all_labels'', FloatTensor [[1, 2], [3, 0]])])"
  by code_simp

theorem collate_saliency_all_labels_witness:
  "start_end_collate example_batch =
     Inr ([(), ()],
       [(''video_feat'', PaddedWithMask [[[1, 2], [3, 4]], [[5, 6], [0, 0]]]
                           [[True, True], [True, False]]),
        (''saliency_all_labels'', FloatTensor [[1, 2], [3, 0]])]) \<and>
   saliency_all_labels (snd (hd example_batch)) \<noteq> None \<and>
   those (map (\<lambda>e. saliency_all_labels (snd e)) example_batch) = Some [[1, 2], [3]]"
proof -
  have first: "saliency_all_labels (snd (hd example_batch)) \<noteq> None"
    by (simp add: example_batch_def no_inputs_def)
  from collate_saliency_all_labels [OF collate_run first] collate_run first
  show ?thesis by (simp add: example_batch_def no_inputs_def)
qed

text \<open>
  C6, the claim as stated fails: on the example batch the value of
  \<open>saliency_all_labels\<close> is the padded tensor alone, whereas the value of \<open>video_feat\<close>
  is a padded tensor with its mask.
\<close>

theorem collate_drops_mask:
  "map_sum id (\<lambda>r. map_of (snd r) ''saliency_all_labels'') (start_end_collate example_batch) =
     Inr (Some (FloatTensor [[1, 2], [3, 0]])) \<and>
   map_sum id (\<lambda>r. map_of (snd r) ''video_feat'') (start_end_collate example_batch) =
     Inr (Some (PaddedWithMask [[[1, 2], [3, 4]], [[5, 6], [0, 0]]] [[True, True], [True, False]]))"
  by (simp add: collate_run)


end
